theory Spec2Isabelle
  imports Complex_Main "HOL-Library.Multiset"
begin

section \<open>The video frame selector: data\<close>

text \<open>
  The component \<^verbatim>\<open>VideoFrameSelector\<close> (src/src/components/VideoFrameSelector.tsx) is
  event driven: its code runs in React effects, in DOM event listeners and in timer
  callbacks. The model is explicit state passing over a record \<open>world\<close> that holds the
  component's state cells, the two DOM elements it creates, the listeners registered on
  the video element, the pending timers and a virtual clock in milliseconds.

  Timestamps are JavaScript numbers that the code only stores and passes on, without
  arithmetic; they are modelled as \<open>real\<close>. \<^verbatim>\<open>NaN\<close> and the infinities are not modelled:
  the value parsed in \<^verbatim>\<open>handleSliderChange\<close> comes from a range control, whose value
  is always a valid number, and the prop \<^verbatim>\<open>selectedTimestamp\<close> is taken to be a finite
  number.
\<close>

text \<open>A thrown value: an \<^verbatim>\<open>Error\<close> with its message, or any other value.\<close>

datatype exn = Error string | NonError string

text \<open>How a block of statements ends: normally, or by a throw that was not caught.\<close>

datatype completion = Normal | Throw exn

text \<open>The three event types the component listens to on the video element.\<close>

datatype ev_type = EvLoadedMetadata | EvError | EvSeeked

text \<open>
  The listener closures. \<^verbatim>\<open>handleLoadedMetadata\<close> captures the prop
  \<^verbatim>\<open>selectedTimestamp\<close> of the render that ran the effect, \<^verbatim>\<open>handleSeeked\<close> captures
  the \<^verbatim>\<open>time\<close> of its slider change.
\<close>

datatype handler =
    HandleLoadedMetadata "real option"
  | HandleError
  | HandleSeeked real

text \<open>
  A registered listener. Every \<^verbatim>\<open>addEventListener\<close> of the source passes
  \<^verbatim>\<open>{ once: true }\<close>. The identifier stands for the identity of the closure, which
  \<^verbatim>\<open>removeEventListener\<close> compares.
\<close>

datatype listener = Listener (l_id: nat) (l_type: ev_type) (l_handler: handler)

text \<open>
  The timer callbacks: the one of \<^verbatim>\<open>handleLoadedMetadata\<close> (lines 63-66) with the
  captured \<^verbatim>\<open>initialTime\<close>; the load timeout (lines 79-84) with the value of
  \<^verbatim>\<open>loading\<close> its closure captured; the seek fallback (lines 137-140) with the
  identity of the \<^verbatim>\<open>handleSeeked\<close> closure it removes and the captured \<^verbatim>\<open>time\<close>.
\<close>

datatype task =
    InitialCapture real
  | LoadTimeout bool
  | SeekFallback nat real

datatype timer = Timer (t_id: nat) (t_due: nat) (t_task: task)

text \<open>What the cleanup function of the second effect captured (lines 86-91).\<close>

datatype cleanup = Cleanup nat nat nat string

text \<open>
  The video element: the fields the source assigns or reads, the picture the decoder
  currently shows, and the registered listeners in the order of their registration. The
  canvas element: its size, what was drawn on it, and whether \<^verbatim>\<open>getContext('2d')\<close>
  yields a context.
\<close>

record video_el =
  v_src :: string
  v_currentTime :: real
  v_duration :: real
  videoWidth :: nat
  videoHeight :: nat
  v_picture :: string
  v_listeners :: "listener list"

record canvas_el =
  c_width :: nat
  c_height :: nat
  c_bitmap :: string
  c_has2d :: bool

text \<open>
  The world: the state cells of the component (\<^verbatim>\<open>duration\<close>, \<^verbatim>\<open>currentTime\<close>,
  \<^verbatim>\<open>loading\<close>, \<^verbatim>\<open>error\<close>, \<^verbatim>\<open>video\<close>, \<^verbatim>\<open>canvas\<close>), the pending timers in the
  order they were set, the next fresh identifier for a timer or a closure, the clock in
  milliseconds, the cleanup that the last run of the second effect returned, and what
  the component did to the outside: the calls of \<^verbatim>\<open>onFrameSelect\<close> with their two
  arguments, the calls of \<^verbatim>\<open>console.error\<close>, the URLs revoked.
\<close>

record world =
  duration :: real
  currentTime :: real
  loading :: bool
  error :: "string option"
  video :: "video_el option"
  canvas :: "canvas_el option"
  timers :: "timer list"
  next_id :: nat
  clock :: nat
  effect_cleanup :: "cleanup option"
  invocations :: "(string \<times> real) list"
  console_errors :: "string list"
  revoked :: "string list"

text \<open>
  The props of the component, and the one host function whose failure the source
  handles: \<^verbatim>\<open>onFrameSelect\<close> returns normally (\<open>None\<close>) or throws;
  \<^verbatim>\<open>URL.createObjectURL\<close> returns a URL or throws.
\<close>

record env =
  videoFile :: "string option"
  selectedTimestamp :: "real option"
  onFrameSelect :: "string \<Rightarrow> real \<Rightarrow> exn option"
  createObjectURL :: "string \<Rightarrow> exn + string"

text \<open>
  What the render function shows (lines 149-167): loading first, then the error. The test
  \<^verbatim>\<open>if (error)\<close> takes \<^verbatim>\<open>null\<close> and the empty string alike as no error.
\<close>

datatype status = Loading | Failed string | Ready

definition status :: "world \<Rightarrow> status" where
  "status w =
     (if loading w then Loading
      else case error w of
             Some m \<Rightarrow> if m = [] then Ready else Failed m
           | None \<Rightarrow> Ready)"

section \<open>Statements in sequence, try and catch\<close>

fun and_then :: "world \<times> completion \<Rightarrow> (world \<Rightarrow> world \<times> completion) \<Rightarrow> world \<times> completion" where
  "and_then (w, Normal) f = f w"
| "and_then (w, Throw e) f = (w, Throw e)"

text \<open>
  A callback that the browser invoked and that threw: the exception is reported and the
  event loop goes on.
\<close>

fun report :: "world \<times> completion \<Rightarrow> world" where
  "report (w, Normal) = w"
| "report (w, Throw e) = w\<lparr>console_errors := console_errors w @ [''Uncaught'']\<rparr>"

section \<open>The DOM operations the source calls\<close>

definition removeEventListener :: "ev_type \<Rightarrow> nat \<Rightarrow> world \<Rightarrow> world" where
  "removeEventListener ty i w =
     (case video w of
        None \<Rightarrow> w
      | Some v \<Rightarrow>
          w\<lparr>video := Some (v\<lparr>v_listeners :=
               filter (\<lambda>l. \<not> (l_type l = ty \<and> l_id l = i)) (v_listeners v)\<rparr>)\<rparr>)"

definition clearTimeout :: "nat \<Rightarrow> world \<Rightarrow> world" where
  "clearTimeout i w = w\<lparr>timers := filter (\<lambda>x. t_id x \<noteq> i) (timers w)\<rparr>"

text \<open>\<^verbatim>\<open>c.toDataURL('image/jpeg', 0.9)\<close>: the encoding of what the canvas holds.\<close>

definition toDataURL :: "canvas_el \<Rightarrow> string" where
  "toDataURL c = ''data:image/jpeg;base64,'' @ c_bitmap c"

section \<open>captureFrame (lines 100-118)\<close>

text \<open>
  The body of the \<^verbatim>\<open>try\<close> block. The arguments \<^verbatim>\<open>v\<close> and \<^verbatim>\<open>c\<close> of the source are
  references to the two elements of the world; a closure that calls \<^verbatim>\<open>captureFrame\<close>
  exists only once both state cells are set, so the last case is never taken.
  Assigning \<^verbatim>\<open>c.width\<close> or \<^verbatim>\<open>c.height\<close> clears the canvas. The call of
  \<^verbatim>\<open>onFrameSelect\<close> is recorded before its outcome is known.
\<close>

definition captureFrame_try :: "env \<Rightarrow> real \<Rightarrow> world \<Rightarrow> world \<times> completion" where
  "captureFrame_try e time w =
     (case (video w, canvas w) of
        (Some v, Some c) \<Rightarrow>
          if \<not> c_has2d c then
            (w\<lparr>console_errors := console_errors w @ [''Failed to get canvas context'']\<rparr>, Normal)
          else
            let c1 = c\<lparr>c_width := videoWidth v, c_height := videoHeight v, c_bitmap := []\<rparr>;
                c2 = c1\<lparr>c_bitmap := v_picture v\<rparr>;
                dataUrl = toDataURL c2;
                w1 = w\<lparr>canvas := Some c2, invocations := invocations w @ [(dataUrl, time)]\<rparr>
            in (case onFrameSelect e dataUrl time of
                  None \<Rightarrow> (w1, Normal)
                | Some x \<Rightarrow> (w1, Throw x))
      | _ \<Rightarrow> (w, Normal))"

definition captureFrame :: "env \<Rightarrow> real \<Rightarrow> world \<Rightarrow> world \<times> completion" where
  "captureFrame e time w =
     (case captureFrame_try e time w of
        (w', Throw x) \<Rightarrow>
          (w'\<lparr>console_errors := console_errors w' @ [''Error capturing frame:'']\<rparr>, Normal)
      | (w', Normal) \<Rightarrow> (w', Normal))"

section \<open>The listeners and the timer callbacks\<close>

text \<open>
  \<^verbatim>\<open>handleLoadedMetadata\<close> (lines 54-67), \<^verbatim>\<open>handleError\<close> (lines 69-73) and
  \<^verbatim>\<open>handleSeeked\<close> (lines 129-132); the first argument is the identity of the closure.
\<close>

fun run_handler :: "env \<Rightarrow> nat \<Rightarrow> handler \<Rightarrow> world \<Rightarrow> world \<times> completion" where
  "run_handler e i (HandleLoadedMetadata sel) w =
     (case video w of
        None \<Rightarrow> (w, Normal)
      | Some v \<Rightarrow>
          let initialTime = (case sel of Some t \<Rightarrow> t | None \<Rightarrow> 0) in
          (w\<lparr>duration := v_duration v,
             currentTime := initialTime,
             video := Some (v\<lparr>v_currentTime := initialTime\<rparr>),
             timers := timers w @ [Timer (next_id w) (clock w + 100) (InitialCapture initialTime)],
             next_id := next_id w + 1\<rparr>, Normal))"
| "run_handler e i HandleError w =
     (w\<lparr>console_errors := console_errors w @ [''Video error:''],
        error := Some ''Failed to load video. Please try a different file.'',
        loading := False\<rparr>, Normal)"
| "run_handler e i (HandleSeeked time) w =
     and_then (captureFrame e time w) (\<lambda>w'. (removeEventListener EvSeeked i w', Normal))"

fun run_task :: "env \<Rightarrow> task \<Rightarrow> world \<Rightarrow> world \<times> completion" where
  "run_task e (InitialCapture initialTime) w =
     and_then (captureFrame e initialTime w) (\<lambda>w'. (w'\<lparr>loading := False\<rparr>, Normal))"
| "run_task e (LoadTimeout captured_loading) w =
     (if captured_loading then
        (w\<lparr>error := Some ''Video took too long to load. Please try again.'',
           loading := False\<rparr>, Normal)
      else (w, Normal))"
| "run_task e (SeekFallback i time) w =
     captureFrame e time (removeEventListener EvSeeked i w)"

section \<open>handleSliderChange (lines 120-141)\<close>

text \<open>The argument is the value of \<^verbatim>\<open>parseFloat(e.target.value)\<close>.\<close>

definition handleSliderChange :: "real \<Rightarrow> world \<Rightarrow> world" where
  "handleSliderChange time w =
     (let w1 = w\<lparr>currentTime := time\<rparr> in
      case (video w1, canvas w1) of
        (Some v, Some c) \<Rightarrow>
          w1\<lparr>video := Some (v\<lparr>v_currentTime := time,
                 v_listeners := v_listeners v @ [Listener (next_id w1) EvSeeked (HandleSeeked time)]\<rparr>),
             timers := timers w1 @
                 [Timer (next_id w1 + 1) (clock w1 + 500) (SeekFallback (next_id w1) time)],
             next_id := next_id w1 + 2\<rparr>
      | _ \<Rightarrow> w1)"

section \<open>The range control (lines 192-216)\<close>

text \<open>
  \<^verbatim>\<open>handleSliderChange\<close> has one caller, the \<^verbatim>\<open>onChange\<close> of the controlled range
  input. The control has \<^verbatim>\<open>min="0"\<close>, \<^verbatim>\<open>max={duration}\<close> and \<^verbatim>\<open>step="0.1"\<close>: whatever
  position is asked of it, its value is brought into the range and onto the nearest
  step that is in the range (the half-way case goes up), which is the value
  \<^verbatim>\<open>parseFloat\<close> then reads. The numbers are modelled as reals.
\<close>

definition range_value :: "real \<Rightarrow> real \<Rightarrow> real" where
  "range_value d x =
     (let y = max 0 (min d x);
          k = \<lfloor>y * 10 + 1 / 2\<rfloor>
      in if real_of_int k / 10 \<le> d then real_of_int k / 10 else (real_of_int k - 1) / 10)"

text \<open>
  The control is part of what the render function returns only when the component is
  neither loading nor in error (lines 149-167) and \<^verbatim>\<open>duration > 0\<close> (line 192).
\<close>

definition slider_rendered :: "world \<Rightarrow> bool" where
  "slider_rendered w = (status w = Ready \<and> 0 < duration w)"

text \<open>
  The user asks the control for the position \<open>x\<close>. The control shows
  \<^verbatim>\<open>value={currentTime}\<close>; a change event is fired, and \<^verbatim>\<open>handleSliderChange\<close> called,
  only when the value of the control changes.
\<close>

definition slider_input :: "real \<Rightarrow> world \<Rightarrow> world" where
  "slider_input x w =
     (if \<not> slider_rendered w then w
      else let v = range_value (duration w) x in
           if v = range_value (duration w) (currentTime w) then w
           else handleSliderChange v w)"

section \<open>The effects (lines 23-41 and 44-98)\<close>

text \<open>The state of the first render: \<^verbatim>\<open>useState\<close> initial values, nothing pending.\<close>

definition first_render :: "env \<Rightarrow> world" where
  "first_render e =
     \<lparr>duration = 0,
      currentTime = (case selectedTimestamp e of Some t \<Rightarrow> t | None \<Rightarrow> 0),
      loading = True, error = None, video = None, canvas = None,
      timers = [], next_id = 0, clock = 0, effect_cleanup = None,
      invocations = [], console_errors = [], revoked = []\<rparr>"

text \<open>
  The first effect creates the two elements. A new canvas is 300 by 150, and its 2d
  context is available.
\<close>

definition create_elements :: "world \<Rightarrow> world" where
  "create_elements w =
     w\<lparr>video := Some \<lparr>v_src = [], v_currentTime = 0, v_duration = 0, videoWidth = 0,
                      videoHeight = 0, v_picture = [], v_listeners = []\<rparr>,
       canvas := Some \<lparr>c_width = 300, c_height = 150, c_bitmap = [], c_has2d = True\<rparr>\<rparr>"

text \<open>
  The second effect. The closure of the load timeout reads the constant \<^verbatim>\<open>loading\<close>
  of the render that ran the effect: \<^verbatim>\<open>setLoading(true)\<close> changes the state cell, not
  that constant. The effect returns its cleanup only when the \<^verbatim>\<open>try\<close> block ends
  normally.
\<close>

definition init_effect :: "env \<Rightarrow> world \<Rightarrow> world" where
  "init_effect e w =
     (case (videoFile e, video w, canvas w) of
        (Some file, Some v, Some c) \<Rightarrow>
          let captured_loading = loading w;
              w1 = w\<lparr>loading := True, error := None\<rparr>
          in (case createObjectURL e file of
                Inl x \<Rightarrow>
                  let msg = (case x of Error m \<Rightarrow> m | NonError _ \<Rightarrow> ''Unknown error'') in
                  w1\<lparr>console_errors := console_errors w1 @ [''Video initialization error:''],
                     error := Some msg, loading := False, effect_cleanup := None\<rparr>
              | Inr videoUrl \<Rightarrow>
                  let n = next_id w1 in
                  w1\<lparr>video := Some (v\<lparr>v_src := videoUrl,
                         v_listeners := v_listeners v @
                           [Listener n EvLoadedMetadata (HandleLoadedMetadata (selectedTimestamp e)),
                            Listener (n + 1) EvError HandleError]\<rparr>),
                     timers := timers w1 @ [Timer (n + 2) (clock w1 + 10000) (LoadTimeout captured_loading)],
                     next_id := n + 3,
                     effect_cleanup := Some (Cleanup (n + 2) n (n + 1) videoUrl)\<rparr>)
      | _ \<Rightarrow> w\<lparr>effect_cleanup := None\<rparr>)"

definition run_cleanup :: "world \<Rightarrow> world" where
  "run_cleanup w =
     (case effect_cleanup w of
        None \<Rightarrow> w
      | Some (Cleanup timeoutId lm er videoUrl) \<Rightarrow>
          let w1 = clearTimeout timeoutId w;
              w2 = removeEventListener EvLoadedMetadata lm w1;
              w3 = removeEventListener EvError er w2
          in w3\<lparr>revoked := revoked w3 @ [videoUrl], effect_cleanup := None\<rparr>)"

text \<open>
  A render in which a dependency of the second effect changed: React runs the cleanup
  of the previous run, then the effect with the new props.
\<close>

definition deps_changed :: "env \<Rightarrow> world \<Rightarrow> world" where
  "deps_changed e w = init_effect e (run_cleanup w)"

text \<open>
  Mounting. After the first render both effects run with that render's constants, so the
  second one still sees \<^verbatim>\<open>video\<close> and \<^verbatim>\<open>canvas\<close> as null and returns at line 45;
  the state set by the first effect causes a second render, whose changed dependencies
  run the second effect again.
\<close>

definition mount :: "env \<Rightarrow> world" where
  "mount e = deps_changed e (create_elements (init_effect e (first_render e)))"

section \<open>Events of the browser and the event loop\<close>

definition registered :: "listener \<Rightarrow> world \<Rightarrow> bool" where
  "registered l w = (case video w of None \<Rightarrow> False | Some v \<Rightarrow> l \<in> set (v_listeners v))"

text \<open>
  Dispatching an event: the listeners registered for its type when the dispatch starts are
  invoked in the order of their registration; a listener removed in the meantime is
  skipped; a \<^verbatim>\<open>once\<close> listener is removed before it is invoked.
\<close>

fun dispatch_list :: "env \<Rightarrow> listener list \<Rightarrow> world \<Rightarrow> world" where
  "dispatch_list e [] w = w"
| "dispatch_list e (l # ls) w =
     (if registered l w then
        dispatch_list e ls
          (report (run_handler e (l_id l) (l_handler l)
             (removeEventListener (l_type l) (l_id l) w)))
      else dispatch_list e ls w)"

definition dispatch :: "env \<Rightarrow> ev_type \<Rightarrow> world \<Rightarrow> world" where
  "dispatch e ty w =
     (case video w of
        None \<Rightarrow> w
      | Some v \<Rightarrow> dispatch_list e (filter (\<lambda>l. l_type l = ty) (v_listeners v)) w)"

text \<open>
  The metadata of the source arrived: the element now knows the duration and the native
  width and height, and fires \<^verbatim>\<open>loadedmetadata\<close>.
\<close>

definition fire_loadedmetadata :: "env \<Rightarrow> real \<Rightarrow> nat \<Rightarrow> nat \<Rightarrow> world \<Rightarrow> world" where
  "fire_loadedmetadata e d wd ht w =
     (case video w of
        None \<Rightarrow> w
      | Some v \<Rightarrow>
          dispatch e EvLoadedMetadata
            (w\<lparr>video := Some (v\<lparr>v_duration := d, videoWidth := wd, videoHeight := ht\<rparr>)\<rparr>))"

definition fire_error :: "env \<Rightarrow> world \<Rightarrow> world" where
  "fire_error e w = dispatch e EvError w"

text \<open>A seek completed: the element shows the picture \<open>pic\<close> and fires \<^verbatim>\<open>seeked\<close>.\<close>

definition fire_seeked :: "env \<Rightarrow> string \<Rightarrow> world \<Rightarrow> world" where
  "fire_seeked e pic w =
     (case video w of
        None \<Rightarrow> w
      | Some v \<Rightarrow> dispatch e EvSeeked (w\<lparr>video := Some (v\<lparr>v_picture := pic\<rparr>)\<rparr>))"

text \<open>Whether \<^verbatim>\<open>getContext('2d')\<close> yields a context is up to the browser.\<close>

definition set_context :: "bool \<Rightarrow> world \<Rightarrow> world" where
  "set_context b w =
     (case canvas w of None \<Rightarrow> w | Some c \<Rightarrow> w\<lparr>canvas := Some (c\<lparr>c_has2d := b\<rparr>)\<rparr>)"

text \<open>
  The timer that fires next when the clock is moved to \<open>t\<close>: the one that is due
  first, and of several due at the same time the one set first.
\<close>

fun next_due :: "nat \<Rightarrow> timer list \<Rightarrow> timer option" where
  "next_due t [] = None"
| "next_due t (x # xs) =
     (case next_due t xs of
        None \<Rightarrow> if t_due x \<le> t then Some x else None
      | Some y \<Rightarrow> if t_due x \<le> t_due y then Some x else Some y)"

text \<open>
  No callback sets or clears a timer, so each firing leaves one timer less: moving the
  clock terminates.
\<close>

lemma next_due_mem: "next_due t xs = Some y \<Longrightarrow> y \<in> set xs"
  by (induction xs arbitrary: y) (auto split: option.splits if_splits)

lemma next_due_le: "next_due t xs = Some y \<Longrightarrow> t_due y \<le> t"
  by (induction xs arbitrary: y) (auto split: option.splits if_splits)

lemma timers_removeEventListener [simp]: "timers (removeEventListener ty i w) = timers w"
  by (simp add: removeEventListener_def split: option.splits)

lemma timers_captureFrame_try [simp]: "timers (fst (captureFrame_try e time w)) = timers w"
  by (simp add: captureFrame_try_def Let_def split: option.splits)

lemma timers_captureFrame [simp]: "timers (fst (captureFrame e time w)) = timers w"
proof -
  obtain w' r where tr: "captureFrame_try e time w = (w', r)"
    by (cases "captureFrame_try e time w")
  have "timers w' = timers w"
    using timers_captureFrame_try [of e time w] tr by simp
  then show ?thesis
    by (cases r) (simp_all add: captureFrame_def tr)
qed

lemma snd_captureFrame [simp]: "snd (captureFrame e time w) = Normal"
proof -
  obtain w' r where tr: "captureFrame_try e time w = (w', r)"
    by (cases "captureFrame_try e time w")
  show ?thesis
    by (cases r) (simp_all add: captureFrame_def tr)
qed

lemma and_then_captureFrame:
  "and_then (captureFrame e time w) f = f (fst (captureFrame e time w))"
proof -
  have "captureFrame e time w = (fst (captureFrame e time w), Normal)"
    by (metis prod.collapse snd_captureFrame)
  then have "and_then (captureFrame e time w) f = and_then (fst (captureFrame e time w), Normal) f"
    by simp
  then show ?thesis by simp
qed

lemma report_captureFrame [simp]:
  "report (captureFrame e time w) = fst (captureFrame e time w)"
proof -
  have "captureFrame e time w = (fst (captureFrame e time w), Normal)"
    by (metis prod.collapse snd_captureFrame)
  then have "report (captureFrame e time w) = report (fst (captureFrame e time w), Normal)"
    by simp
  then show ?thesis by simp
qed

lemma timers_run_task [simp]: "timers (report (run_task e k w)) = timers w"
  by (cases k) (simp_all add: and_then_captureFrame)

text \<open>
  Moving the clock to \<open>t\<close>: the due timers fire one after the other, each removed
  before its callback runs, and the clock shows the time each was due.
\<close>

function run_until :: "env \<Rightarrow> nat \<Rightarrow> world \<Rightarrow> world" where
  "run_until e t w =
     (case next_due t (timers w) of
        None \<Rightarrow> w\<lparr>clock := max (clock w) t\<rparr>
      | Some x \<Rightarrow>
          run_until e t
            (report (run_task e (t_task x)
               (clearTimeout (t_id x) (w\<lparr>clock := max (clock w) (t_due x)\<rparr>)))))"
  by pat_completeness auto
termination
proof (relation "measure (\<lambda>(e, t, w). length (timers w))")
  show "wf (measure (\<lambda>(e, t, w). length (timers w)))" by simp
next
  fix e :: env and t :: nat and w :: world and x :: timer
  assume nd: "next_due t (timers w) = Some x"
  have "x \<in> set (timers w)" using nd by (rule next_due_mem)
  then have "length (filter (\<lambda>y. t_id y \<noteq> t_id x) (timers w)) < length (timers w)"
    by (intro length_filter_less [of x]) simp_all
  then show "((e, t, report (run_task e (t_task x)
                 (clearTimeout (t_id x) (w\<lparr>clock := max (clock w) (t_due x)\<rparr>)))), e, t, w)
               \<in> measure (\<lambda>(e, t, w). length (timers w))"
    by (simp add: clearTimeout_def)
qed

declare run_until.simps [simp del]

text \<open>What happens to the mounted component, from the user and from the browser.\<close>

datatype event =
    SliderChange real
  | Seeked string
  | LoadedMetadata real nat nat
  | VideoError
  | Elapse nat
  | ContextAvailable bool

fun step :: "env \<Rightarrow> event \<Rightarrow> world \<Rightarrow> world" where
  "step e (SliderChange time) w = handleSliderChange time w"
| "step e (Seeked pic) w = fire_seeked e pic w"
| "step e (LoadedMetadata d wd ht) w = fire_loadedmetadata e d wd ht w"
| "step e VideoError w = fire_error e w"
| "step e (Elapse d) w = run_until e (clock w + d) w"
| "step e (ContextAvailable b) w = set_context b w"

fun run :: "env \<Rightarrow> event list \<Rightarrow> world \<Rightarrow> world" where
  "run e [] w = w"
| "run e (x # xs) w = run e xs (step e x w)"

section \<open>Notions for stating the claims\<close>

text \<open>
  The timestamps with which a timer callback calls \<^verbatim>\<open>captureFrame\<close>, and those of a
  list of pending timers.
\<close>

fun task_stamps :: "task \<Rightarrow> real list" where
  "task_stamps (InitialCapture t) = [t]"
| "task_stamps (LoadTimeout b) = []"
| "task_stamps (SeekFallback i t) = [t]"

definition pending_stamps :: "timer list \<Rightarrow> real list" where
  "pending_stamps ts = concat (map (\<lambda>x. task_stamps (t_task x)) ts)"

text \<open>The timestamps of the calls of \<^verbatim>\<open>onFrameSelect\<close> so far, in order.\<close>

abbreviation stamps :: "world \<Rightarrow> real list" where
  "stamps w \<equiv> map snd (invocations w)"

text \<open>
  Both elements exist and \<^verbatim>\<open>getContext('2d')\<close> yields a context: a capture reaches
  the call of \<^verbatim>\<open>onFrameSelect\<close>.
\<close>

definition can_capture :: "world \<Rightarrow> bool" where
  "can_capture w =
     (video w \<noteq> None \<and> (case canvas w of None \<Rightarrow> False | Some c \<Rightarrow> c_has2d c))"

text \<open>The values of the slider changes of a run, in order: the seek requests.\<close>

fun requests :: "event list \<Rightarrow> real list" where
  "requests [] = []"
| "requests (SliderChange t # evs) = t # requests evs"
| "requests (x # evs) = requests evs"

text \<open>
  A run in which the user only moves the slider and time passes: no \<^verbatim>\<open>seeked\<close>
  event, no load event.
\<close>

fun scrubbing :: "event list \<Rightarrow> bool" where
  "scrubbing [] = True"
| "scrubbing (SliderChange t # evs) = scrubbing evs"
| "scrubbing (Elapse d # evs) = scrubbing evs"
| "scrubbing (x # evs) = False"

text \<open>
  The identifiers of the pending timers are distinct and were handed out already. The
  mounted component is so and every event keeps it so (\<open>timers_ok_mount\<close>,
  \<open>timers_ok_deps_changed\<close>, \<open>timers_ok_run\<close> below), as identifiers are only ever
  taken from \<open>next_id\<close>.
\<close>

definition timers_ok :: "world \<Rightarrow> bool" where
  "timers_ok w =
     (distinct (map t_id (timers w)) \<and> (\<forall>x\<in>set (timers w). t_id x < next_id w))"

text \<open>The timestamps of the calls of \<^verbatim>\<open>onFrameSelect\<close> made after the state \<open>w\<close>.\<close>

definition delivered_since :: "world \<Rightarrow> world \<Rightarrow> real list" where
  "delivered_since w w' = map snd (drop (length (invocations w)) (invocations w'))"

section \<open>A sample session\<close>

text \<open>
  A parent whose callback returns normally, a file that gets a URL, no
  \<^verbatim>\<open>selectedTimestamp\<close>; and the session once a 30 second video of 640 by 480 has
  loaded and the initial capture has run.
\<close>

definition sample_env :: env where
  "sample_env =
     \<lparr>videoFile = Some ''a.mp4'', selectedTimestamp = None,
      onFrameSelect = (\<lambda>u t. None),
      createObjectURL = (\<lambda>f. Inr (''blob:'' @ f))\<rparr>"

definition sample_ready :: world where
  "sample_ready = run sample_env [LoadedMetadata 30 640 480, Elapse 100] (mount sample_env)"

text \<open>A parent whose callback throws.\<close>

definition throwing_env :: env where
  "throwing_env = sample_env\<lparr>onFrameSelect := (\<lambda>u t. Some (Error ''boom''))\<rparr>"

text \<open>The parent passes another file; the parent passes an initial timestamp.\<close>

definition second_env :: env where
  "second_env = sample_env\<lparr>videoFile := Some ''b.mp4''\<rparr>"

definition late_env :: env where
  "late_env = sample_env\<lparr>selectedTimestamp := Some 999\<rparr>"

definition beyond_env :: env where
  "beyond_env = sample_env\<lparr>selectedTimestamp := Some 45\<rparr>"

text \<open>The definitions that a concrete run unfolds.\<close>

lemmas event_defs =
  run_until.simps fire_loadedmetadata_def fire_seeked_def fire_error_def dispatch_def
  registered_def removeEventListener_def clearTimeout_def handleSliderChange_def
  captureFrame_def captureFrame_try_def toDataURL_def set_context_def deps_changed_def
  init_effect_def run_cleanup_def status_def Let_def

lemmas mount_defs = mount_def create_elements_def first_render_def

lemmas sample_defs = sample_env_def second_env_def late_env_def beyond_env_def

lemma sample_ready_eq:
  "sample_ready =
     \<lparr>duration = 30, currentTime = 0, loading = False, error = None,
      video = Some \<lparr>v_src = ''blob:a.mp4'', v_currentTime = 0, v_duration = 30,
                     videoWidth = 640, videoHeight = 480, v_picture = [],
                     v_listeners = [Listener 1 EvError HandleError]\<rparr>,
      canvas = Some \<lparr>c_width = 640, c_height = 480, c_bitmap = [], c_has2d = True\<rparr>,
      timers = [Timer 2 10000 (LoadTimeout True)], next_id = 4, clock = 100,
      effect_cleanup = Some (Cleanup 2 0 1 ''blob:a.mp4''),
      invocations = [(''data:image/jpeg;base64,'', 0)], console_errors = [],
      revoked = []\<rparr>"
  by (simp add: sample_ready_def mount_defs event_defs sample_defs)

section \<open>What a capture does\<close>

lemma captureFrame_try_no_context:
  assumes "video w = Some v" and "canvas w = Some c" and "\<not> c_has2d c"
  shows "captureFrame_try e time w =
           (w\<lparr>console_errors := console_errors w @ [''Failed to get canvas context'']\<rparr>, Normal)"
  using assms by (simp add: captureFrame_try_def)

lemma captureFrame_try_context:
  assumes "video w = Some v" and "canvas w = Some c" and "c_has2d c"
  shows "captureFrame_try e time w =
           (w\<lparr>canvas := Some (c\<lparr>c_width := videoWidth v, c_height := videoHeight v,
                                   c_bitmap := v_picture v\<rparr>),
              invocations := invocations w @
                [(toDataURL (c\<lparr>c_width := videoWidth v, c_height := videoHeight v,
                               c_bitmap := v_picture v\<rparr>), time)]\<rparr>,
            case onFrameSelect e (toDataURL (c\<lparr>c_width := videoWidth v,
                    c_height := videoHeight v, c_bitmap := v_picture v\<rparr>)) time of
              None \<Rightarrow> Normal | Some x \<Rightarrow> Throw x)"
  using assms by (simp add: captureFrame_try_def Let_def split: option.splits)

lemma status_captureFrame [simp]: "status (fst (captureFrame e time w)) = status w"
proof -
  obtain w' r where tr: "captureFrame_try e time w = (w', r)"
    by (cases "captureFrame_try e time w")
  have "loading w' = loading w \<and> error w' = error w"
    using tr by (auto simp: captureFrame_try_def Let_def split: option.splits if_splits)
  then show ?thesis
    by (cases r) (simp_all add: captureFrame_def tr status_def)
qed

lemma times_captureFrame [simp]:
  "currentTime (fst (captureFrame e time w)) = currentTime w"
  "duration (fst (captureFrame e time w)) = duration w"
proof -
  obtain w' r where tr: "captureFrame_try e time w = (w', r)"
    by (cases "captureFrame_try e time w")
  have "currentTime w' = currentTime w \<and> duration w' = duration w"
    using tr by (auto simp: captureFrame_try_def Let_def split: option.splits if_splits)
  then show "currentTime (fst (captureFrame e time w)) = currentTime w"
    and "duration (fst (captureFrame e time w)) = duration w"
    by (cases r; simp add: captureFrame_def tr)+
qed

section \<open>Timers fire once each\<close>

lemma captureFrame_can_capture:
  assumes "can_capture w"
  shows "stamps (fst (captureFrame e time w)) = stamps w @ [time]"
    and "can_capture (fst (captureFrame e time w))"
    and "next_id (fst (captureFrame e time w)) = next_id w"
    and "clock (fst (captureFrame e time w)) = clock w"
proof -
  obtain v c where v: "video w = Some v" and c: "canvas w = Some c" and h: "c_has2d c"
    using assms by (auto simp: can_capture_def split: option.splits)
  obtain r where tr: "captureFrame_try e time w =
      (w\<lparr>canvas := Some (c\<lparr>c_width := videoWidth v, c_height := videoHeight v,
                               c_bitmap := v_picture v\<rparr>),
         invocations := invocations w @
           [(toDataURL (c\<lparr>c_width := videoWidth v, c_height := videoHeight v,
                          c_bitmap := v_picture v\<rparr>), time)]\<rparr>, r)"
    using captureFrame_try_context [OF v c h, of e time] by simp
  show "stamps (fst (captureFrame e time w)) = stamps w @ [time]"
    by (cases r) (simp_all add: captureFrame_def tr)
  show "can_capture (fst (captureFrame e time w))"
    using v h by (cases r) (simp_all add: captureFrame_def tr can_capture_def)
  show "next_id (fst (captureFrame e time w)) = next_id w"
    by (cases r) (simp_all add: captureFrame_def tr)
  show "clock (fst (captureFrame e time w)) = clock w"
    by (cases r) (simp_all add: captureFrame_def tr)
qed

lemma removeEventListener_keeps [simp]:
  "can_capture (removeEventListener ty i w) = can_capture w"
  "invocations (removeEventListener ty i w) = invocations w"
  "next_id (removeEventListener ty i w) = next_id w"
  "clock (removeEventListener ty i w) = clock w"
  by (simp_all add: removeEventListener_def can_capture_def split: option.splits)

lemma run_task_can_capture:
  assumes "can_capture w"
  shows "stamps (report (run_task e k w)) = stamps w @ task_stamps k"
    and "can_capture (report (run_task e k w))"
    and "next_id (report (run_task e k w)) = next_id w"
    and "clock (report (run_task e k w)) = clock w"
proof -
  have rm: "can_capture (removeEventListener EvSeeked i w)" for i
    using assms by simp
  show "stamps (report (run_task e k w)) = stamps w @ task_stamps k"
    using captureFrame_can_capture(1) [OF assms] captureFrame_can_capture(1) [OF rm]
    by (cases k) (simp_all add: and_then_captureFrame)
  show "can_capture (report (run_task e k w))"
    using captureFrame_can_capture(2) [OF assms] captureFrame_can_capture(2) [OF rm] assms
    by (cases k) (simp_all add: and_then_captureFrame can_capture_def)
  show "next_id (report (run_task e k w)) = next_id w"
    using captureFrame_can_capture(3) [OF assms] captureFrame_can_capture(3) [OF rm]
    by (cases k) (simp_all add: and_then_captureFrame)
  show "clock (report (run_task e k w)) = clock w"
    using captureFrame_can_capture(4) [OF assms] captureFrame_can_capture(4) [OF rm]
    by (cases k) (simp_all add: and_then_captureFrame)
qed

lemma next_due_None_iff: "next_due t xs = None \<longleftrightarrow> (\<forall>x\<in>set xs. t < t_due x)"
  by (induction xs) (auto split: option.splits)

lemma pending_stamps_simps [simp]:
  "pending_stamps [] = []"
  "pending_stamps (x # xs) = task_stamps (t_task x) @ pending_stamps xs"
  "pending_stamps (xs @ ys) = pending_stamps xs @ pending_stamps ys"
  by (simp_all add: pending_stamps_def)

lemma pending_remove_id:
  assumes "distinct (map t_id ts)" and "x \<in> set ts"
  shows "mset (pending_stamps ts) =
           mset (task_stamps (t_task x)) + mset (pending_stamps (filter (\<lambda>y. t_id y \<noteq> t_id x) ts))"
  using assms
proof (induction ts)
  case Nil
  then show ?case by simp
next
  case (Cons a ts)
  show ?case
  proof (cases "a = x")
    case True
    have "\<forall>y\<in>set ts. t_id y \<noteq> t_id x"
      using Cons.prems(1) True by (fastforce simp: image_iff)
    then have "filter (\<lambda>y. t_id y \<noteq> t_id x) ts = ts"
      by (simp add: filter_id_conv)
    then show ?thesis using True by simp
  next
    case False
    then have xin: "x \<in> set ts" using Cons.prems(2) by simp
    then have "t_id a \<noteq> t_id x" using Cons.prems(1) by auto
    moreover have "distinct (map t_id ts)" using Cons.prems(1) by simp
    ultimately show ?thesis using Cons.IH xin by simp
  qed
qed

lemma run_until_fires:
  assumes "can_capture w" and "distinct (map t_id (timers w))"
  shows "timers (run_until e T w) = filter (\<lambda>x. T < t_due x) (timers w)
       \<and> mset (stamps (run_until e T w)) =
           mset (stamps w) + mset (pending_stamps (filter (\<lambda>x. t_due x \<le> T) (timers w)))
       \<and> can_capture (run_until e T w)
       \<and> next_id (run_until e T w) = next_id w
       \<and> clock (run_until e T w) = max (clock w) T"
  using assms
proof (induction e T w rule: run_until.induct)
  case (1 e T w)
  show ?case
  proof (cases "next_due T (timers w)")
    case None
    then have all: "\<forall>x\<in>set (timers w). T < t_due x"
      by (simp add: next_due_None_iff)
    then have f1: "filter (\<lambda>x. T < t_due x) (timers w) = timers w"
      by (simp add: filter_id_conv)
    have f2: "filter (\<lambda>x. t_due x \<le> T) (timers w) = []"
      using all by (auto simp: filter_empty_conv)
    have "run_until e T w = w\<lparr>clock := max (clock w) T\<rparr>"
      using None by (simp add: run_until.simps)
    then show ?thesis
      using "1.prems"(1) by (simp add: f1 f2 can_capture_def)
  next
    case (Some x)
    let ?w0 = "clearTimeout (t_id x) (w\<lparr>clock := max (clock w) (t_due x)\<rparr>)"
    let ?w1 = "report (run_task e (t_task x) ?w0)"
    have xin: "x \<in> set (timers w)" using Some by (rule next_due_mem)
    have xdue: "t_due x \<le> T" using Some by (rule next_due_le)
    have c0: "can_capture ?w0"
      using "1.prems"(1) by (simp add: clearTimeout_def can_capture_def)
    have t1: "timers ?w1 = filter (\<lambda>y. t_id y \<noteq> t_id x) (timers w)"
      by (simp add: clearTimeout_def)
    have d1: "distinct (map t_id (timers ?w1))"
      unfolding t1 using "1.prems"(2) by (simp add: distinct_map_filter)
    have c1: "can_capture ?w1" using run_task_can_capture(2) [OF c0] .
    have s1: "stamps ?w1 = stamps w @ task_stamps (t_task x)"
      using run_task_can_capture(1) [OF c0, of e "t_task x"]
      by (simp add: clearTimeout_def)
    have n1: "next_id ?w1 = next_id w"
      using run_task_can_capture(3) [OF c0, of e "t_task x"] by (simp add: clearTimeout_def)
    have k1: "clock ?w1 = max (clock w) (t_due x)"
      using run_task_can_capture(4) [OF c0, of e "t_task x"] by (simp add: clearTimeout_def)
    have ru: "run_until e T w = run_until e T ?w1"
      using Some by (simp add: run_until.simps)
    note IH = "1.IH" [OF Some c1 d1]
    have only: "\<forall>y\<in>set (timers w). t_id y = t_id x \<longrightarrow> y = x"
      using "1.prems"(2) xin by (meson distinct_map inj_onD)
    have fa: "filter (\<lambda>y. T < t_due y) (timers ?w1) = filter (\<lambda>y. T < t_due y) (timers w)"
      unfolding t1 filter_filter
      by (rule filter_cong [OF refl]) (use only xdue in auto)
    have dl: "distinct (map t_id (filter (\<lambda>y. t_due y \<le> T) (timers w)))"
      using "1.prems"(2) by (simp add: distinct_map_filter)
    have xl: "x \<in> set (filter (\<lambda>y. t_due y \<le> T) (timers w))"
      using xin xdue by simp
    have fb: "filter (\<lambda>y. t_due y \<le> T) (timers ?w1) =
              filter (\<lambda>y. t_id y \<noteq> t_id x) (filter (\<lambda>y. t_due y \<le> T) (timers w))"
      unfolding t1 filter_filter by (rule filter_cong [OF refl]) auto
    have ms: "mset (pending_stamps (filter (\<lambda>y. t_due y \<le> T) (timers w))) =
              mset (task_stamps (t_task x)) +
              mset (pending_stamps (filter (\<lambda>y. t_due y \<le> T) (timers ?w1)))"
      unfolding fb by (rule pending_remove_id [OF dl xl])
    have mx: "max (max (clock w) (t_due x)) T = max (clock w) T"
      using xdue by simp
    show ?thesis
      unfolding ru using IH by (simp add: fa ms s1 n1 k1 mx del: timers_run_task)
  qed
qed

lemma captureFrame_prefix:
  "\<exists>ys. invocations (fst (captureFrame e time w)) = invocations w @ ys"
  by (auto simp: captureFrame_def captureFrame_try_def Let_def split: option.splits)

lemma run_task_prefix:
  "\<exists>ys. invocations (report (run_task e k w)) = invocations w @ ys"
proof (cases k)
  case (InitialCapture t)
  then show ?thesis
    using captureFrame_prefix [of e t w] by (auto simp: and_then_captureFrame)
next
  case (LoadTimeout b)
  then show ?thesis by simp
next
  case (SeekFallback i t)
  then show ?thesis
    using captureFrame_prefix [of e t "removeEventListener EvSeeked i w"] by auto
qed

lemma run_until_prefix:
  "\<exists>ys. invocations (run_until e T w) = invocations w @ ys"
proof (induction e T w rule: run_until.induct)
  case (1 e T w)
  show ?case
  proof (cases "next_due T (timers w)")
    case None
    then show ?thesis by (simp add: run_until.simps)
  next
    case (Some x)
    let ?w0 = "clearTimeout (t_id x) (w\<lparr>clock := max (clock w) (t_due x)\<rparr>)"
    obtain ys where a: "invocations (report (run_task e (t_task x) ?w0)) = invocations ?w0 @ ys"
      using run_task_prefix by blast
    obtain zs where b: "invocations (run_until e T (report (run_task e (t_task x) ?w0))) =
        invocations (report (run_task e (t_task x) ?w0)) @ zs"
      using "1.IH" [OF Some] by blast
    have "run_until e T w = run_until e T (report (run_task e (t_task x) ?w0))"
      using Some by (simp add: run_until.simps)
    then show ?thesis
      using a b by (simp add: clearTimeout_def)
  qed
qed

lemma handleSliderChange_effect:
  assumes "can_capture w"
  shows "timers (handleSliderChange time w) =
           timers w @ [Timer (next_id w + 1) (clock w + 500) (SeekFallback (next_id w) time)]"
    and "next_id (handleSliderChange time w) = next_id w + 2"
    and "clock (handleSliderChange time w) = clock w"
    and "invocations (handleSliderChange time w) = invocations w"
    and "can_capture (handleSliderChange time w)"
  using assms
  by (auto simp: handleSliderChange_def can_capture_def Let_def split: option.splits)

lemma run_scrub_prefix:
  assumes "scrubbing evs"
  shows "\<exists>ys. invocations (run e evs w) = invocations w @ ys"
  using assms
proof (induction evs arbitrary: w rule: scrubbing.induct)
  case 1
  then show ?case by simp
next
  case (2 t evs)
  have "invocations (handleSliderChange t w) = invocations w"
    by (simp add: handleSliderChange_def Let_def split: option.splits)
  then show ?case using 2 by (metis run.simps(2) scrubbing.simps(2) step.simps(1))
next
  case (3 d evs)
  obtain ys where "invocations (run_until e (clock w + d) w) = invocations w @ ys"
    using run_until_prefix by blast
  moreover obtain zs where "invocations (run e evs (run_until e (clock w + d) w)) =
      invocations (run_until e (clock w + d) w) @ zs"
    using 3 by (metis scrubbing.simps(3))
  ultimately show ?case by simp
qed simp_all

lemma stamps_split:
  assumes "invocations w' = invocations w @ ys"
  shows "stamps w' = stamps w @ delivered_since w w'"
  using assms by (simp add: delivered_since_def)

lemma pending_partition:
  "mset (pending_stamps (filter (\<lambda>x. t_due x \<le> T) xs)) +
   mset (pending_stamps (filter (\<lambda>x. T < t_due x) xs)) = mset (pending_stamps xs)"
  by (induction xs) auto

lemma pending_none:
  assumes "\<forall>x\<in>set xs. task_stamps (t_task x) \<noteq> [] \<longrightarrow> t_due x \<le> T"
  shows "pending_stamps (filter (\<lambda>x. T < t_due x) xs) = []"
  using assms by (induction xs) auto

lemma pending_empty_iff:
  "pending_stamps xs = [] \<longleftrightarrow> (\<forall>x\<in>set xs. task_stamps (t_task x) = [])"
  by (induction xs) auto

lemma scrub_invariant:
  assumes "scrubbing evs" and "can_capture w" and "timers_ok w"
    and "\<forall>x\<in>set (timers w). task_stamps (t_task x) \<noteq> [] \<longrightarrow> t_due x \<le> clock w + 500"
  shows "can_capture (run e evs w) \<and> timers_ok (run e evs w)
       \<and> (\<forall>x\<in>set (timers (run e evs w)).
             task_stamps (t_task x) \<noteq> [] \<longrightarrow> t_due x \<le> clock (run e evs w) + 500)
       \<and> mset (stamps (run e evs w)) + mset (pending_stamps (timers (run e evs w))) =
           mset (stamps w) + mset (pending_stamps (timers w)) + mset (requests evs)"
  using assms
proof (induction evs arbitrary: w rule: scrubbing.induct)
  case 1
  then show ?case by simp
next
  case (2 t evs)
  let ?w1 = "handleSliderChange t w"
  note eff = handleSliderChange_effect [OF "2.prems"(2), of t]
  have ok: "timers_ok ?w1"
    using "2.prems"(3) by (auto simp: timers_ok_def eff)
  have due: "\<forall>x\<in>set (timers ?w1). task_stamps (t_task x) \<noteq> [] \<longrightarrow> t_due x \<le> clock ?w1 + 500"
    using "2.prems"(4) by (auto simp: eff)
  have sc: "scrubbing evs" using "2.prems"(1) by simp
  note IH = "2.IH" [OF sc eff(5) ok due]
  have "run e (SliderChange t # evs) w = run e evs ?w1" by simp
  then show ?case using IH by (simp add: eff)
next
  case (3 d evs)
  let ?T = "clock w + d"
  let ?w1 = "run_until e ?T w"
  have dist: "distinct (map t_id (timers w))"
    using "3.prems"(3) by (simp add: timers_ok_def)
  note f = run_until_fires [OF "3.prems"(2) dist, of e ?T]
  have ok: "timers_ok ?w1"
    using "3.prems"(3) f by (auto simp: timers_ok_def distinct_map_filter)
  have due: "\<forall>x\<in>set (timers ?w1). task_stamps (t_task x) \<noteq> [] \<longrightarrow> t_due x \<le> clock ?w1 + 500"
    using "3.prems"(4) f by auto
  have cc: "can_capture ?w1" using f by simp
  have sc: "scrubbing evs" using "3.prems"(1) by simp
  note IH = "3.IH" [OF sc cc ok due]
  have m: "mset (stamps ?w1) + mset (pending_stamps (timers ?w1)) =
           mset (stamps w) + mset (pending_stamps (timers w))"
    using f pending_partition [of ?T "timers w"] by (simp add: add.assoc)
  have "run e (Elapse d # evs) w = run e evs ?w1" by simp
  then show ?case using IH m by simp
qed simp_all

lemma run_append: "run e (xs @ ys) w = run e ys (run e xs w)"
  by (induction xs arbitrary: w) simp_all

lemma scrubbing_append: "scrubbing (xs @ ys) = (scrubbing xs \<and> scrubbing ys)"
  by (induction xs rule: scrubbing.induct) simp_all

lemma scrub_then_wait:
  assumes "scrubbing evs" and "can_capture w" and "timers_ok w"
    and "pending_stamps (timers w) = []"
  shows "mset (delivered_since w (run e (evs @ [Elapse 500]) w)) = mset (requests evs)"
proof -
  let ?w1 = "run e evs w"
  let ?T = "clock ?w1 + 500"
  let ?w2 = "run_until e ?T ?w1"
  have due0: "\<forall>x\<in>set (timers w). task_stamps (t_task x) \<noteq> [] \<longrightarrow> t_due x \<le> clock w + 500"
    using assms(4) by (simp add: pending_empty_iff)
  note inv = scrub_invariant [OF assms(1-3) due0, of e]
  have dist: "distinct (map t_id (timers ?w1))"
    using inv by (simp add: timers_ok_def)
  have cc: "can_capture ?w1" using inv by simp
  note f = run_until_fires [OF cc dist, of e ?T]
  have none: "pending_stamps (filter (\<lambda>x. ?T < t_due x) (timers ?w1)) = []"
    using inv by (intro pending_none) simp
  have all: "mset (pending_stamps (filter (\<lambda>x. t_due x \<le> ?T) (timers ?w1))) =
             mset (pending_stamps (timers ?w1))"
    using pending_partition [of ?T "timers ?w1"] none by simp
  have tot: "mset (stamps ?w2) = mset (stamps w) + mset (requests evs)"
    using f inv all assms(4) by simp
  have r: "run e (evs @ [Elapse 500]) w = ?w2"
    by (simp add: run_append)
  have "scrubbing (evs @ [Elapse 500])"
    using assms(1) by (simp add: scrubbing_append)
  then obtain ys where "invocations (run e (evs @ [Elapse 500]) w) = invocations w @ ys"
    using run_scrub_prefix by blast
  then have "stamps ?w2 = stamps w @ delivered_since w ?w2"
    unfolding r by (rule stamps_split)
  then have "mset (stamps ?w2) = mset (stamps w) + mset (delivered_since w ?w2)"
    by (metis mset_append)
  then show ?thesis using tot r by simp
qed

section \<open>Every state of a run has distinct timer identifiers\<close>

lemma captureFrame_keeps_ids:
  "next_id (fst (captureFrame e time w)) = next_id w"
  by (auto simp: captureFrame_def captureFrame_try_def Let_def split: option.splits)

lemma timers_ok_cong:
  assumes "timers w' = timers w" and "next_id w' = next_id w" and "timers_ok w"
  shows "timers_ok w'"
  using assms by (simp add: timers_ok_def)

lemma timers_ok_run_handler:
  assumes "timers_ok w"
  shows "timers_ok (report (run_handler e i h w))"
proof (cases h)
  case (HandleLoadedMetadata sel)
  then show ?thesis
    using assms by (auto simp: timers_ok_def Let_def split: option.splits)
next
  case HandleError
  then show ?thesis using assms by (simp add: timers_ok_def)
next
  case (HandleSeeked t)
  then show ?thesis
    using assms by (simp add: and_then_captureFrame timers_ok_def captureFrame_keeps_ids)
qed

lemma timers_ok_dispatch_list:
  assumes "timers_ok w"
  shows "timers_ok (dispatch_list e ls w)"
  using assms
proof (induction ls arbitrary: w)
  case Nil
  then show ?case by simp
next
  case (Cons l ls)
  have "timers_ok (removeEventListener (l_type l) (l_id l) w)"
    using Cons.prems by (simp add: timers_ok_def)
  then have "timers_ok (report (run_handler e (l_id l) (l_handler l)
      (removeEventListener (l_type l) (l_id l) w)))"
    by (rule timers_ok_run_handler)
  then show ?case using Cons by simp
qed

lemma timers_ok_run_until:
  assumes "timers_ok w"
  shows "timers_ok (run_until e T w)"
  using assms
proof (induction e T w rule: run_until.induct)
  case (1 e T w)
  show ?case
  proof (cases "next_due T (timers w)")
    case None
    then show ?thesis using "1.prems" by (simp add: run_until.simps timers_ok_def)
  next
    case (Some x)
    let ?w0 = "clearTimeout (t_id x) (w\<lparr>clock := max (clock w) (t_due x)\<rparr>)"
    have a: "timers_ok ?w0"
      using "1.prems" by (auto simp: timers_ok_def clearTimeout_def distinct_map_filter)
    have n: "next_id (report (run_task e (t_task x) ?w0)) = next_id ?w0"
      by (cases "t_task x") (simp_all add: and_then_captureFrame captureFrame_keeps_ids)
    have "timers_ok (report (run_task e (t_task x) ?w0))"
      using timers_run_task n a by (rule timers_ok_cong)
    then have "timers_ok (run_until e T (report (run_task e (t_task x) ?w0)))"
      by (rule "1.IH" [OF Some])
    then show ?thesis using Some by (simp add: run_until.simps)
  qed
qed

lemma timers_ok_step:
  assumes "timers_ok w"
  shows "timers_ok (step e ev w)"
proof (cases ev)
  case (SliderChange t)
  then show ?thesis
    using assms by (auto simp: timers_ok_def handleSliderChange_def Let_def split: option.splits)
next
  case (Seeked pic)
  then show ?thesis
    using assms
    by (auto simp: fire_seeked_def dispatch_def timers_ok_def
        intro!: timers_ok_dispatch_list [unfolded timers_ok_def] split: option.splits)
next
  case (LoadedMetadata d wd ht)
  then show ?thesis
    using assms
    by (auto simp: fire_loadedmetadata_def dispatch_def timers_ok_def
        intro!: timers_ok_dispatch_list [unfolded timers_ok_def] split: option.splits)
next
  case VideoError
  then show ?thesis
    using assms
    by (auto simp: fire_error_def dispatch_def intro: timers_ok_dispatch_list split: option.splits)
next
  case (Elapse d)
  then show ?thesis using assms by (simp add: timers_ok_run_until)
next
  case (ContextAvailable b)
  then show ?thesis
    using assms by (simp add: set_context_def timers_ok_def split: option.splits)
qed

lemma timers_ok_run:
  assumes "timers_ok w"
  shows "timers_ok (run e evs w)"
  using assms by (induction evs arbitrary: w) (simp_all add: timers_ok_step)

lemma timers_ok_deps_changed:
  assumes "timers_ok w"
  shows "timers_ok (deps_changed e w)"
proof -
  have "timers_ok (run_cleanup w)"
    using assms
    by (auto simp: run_cleanup_def timers_ok_def clearTimeout_def Let_def distinct_map_filter
        split: option.splits cleanup.splits)
  then show ?thesis
    by (auto simp: deps_changed_def init_effect_def timers_ok_def Let_def
        split: option.splits sum.splits)
qed

lemma timers_ok_mount: "timers_ok (mount e)"
proof -
  have "timers_ok (create_elements (init_effect e (first_render e)))"
    by (simp add: create_elements_def init_effect_def first_render_def timers_ok_def
        split: option.splits)
  then show ?thesis unfolding mount_def by (rule timers_ok_deps_changed)
qed

section \<open>The claims about captureFrame\<close>

text \<open>
  C10. If \<^verbatim>\<open>onFrameSelect\<close> throws when \<^verbatim>\<open>captureFrame\<close> calls it, the \<^verbatim>\<open>catch\<close>
  of \<^verbatim>\<open>captureFrame\<close> takes the exception and only logs it: \<^verbatim>\<open>captureFrame\<close> ends
  normally, so do the seeked listener and the fallback timer callback that called it,
  and the status, \<^verbatim>\<open>currentTime\<close> and \<^verbatim>\<open>duration\<close> of the session are what they were.
\<close>

theorem captureFrame_catches_callback:
  assumes "video w = Some v" and "canvas w = Some c" and "c_has2d c"
    and "onFrameSelect e (toDataURL (c\<lparr>c_width := videoWidth v, c_height := videoHeight v,
           c_bitmap := v_picture v\<rparr>)) time = Some x"
  shows "snd (captureFrame e time w) = Normal
       \<and> console_errors (fst (captureFrame e time w)) =
           console_errors w @ [''Error capturing frame:'']
       \<and> status (fst (captureFrame e time w)) = status w
       \<and> currentTime (fst (captureFrame e time w)) = currentTime w
       \<and> duration (fst (captureFrame e time w)) = duration w
       \<and> snd (run_handler e i (HandleSeeked time) w) = Normal
       \<and> snd (run_task e (SeekFallback i time) w) = Normal"
proof -
  have "console_errors (fst (captureFrame e time w)) =
          console_errors w @ [''Error capturing frame:'']"
    using assms by (simp add: captureFrame_def captureFrame_try_context)
  moreover have "snd (run_handler e i (HandleSeeked time) w) = Normal"
    by (simp add: and_then_captureFrame)
  ultimately show ?thesis by simp
qed

theorem captureFrame_catches_callback_witness:
  "snd (captureFrame throwing_env 5 sample_ready) = Normal
   \<and> console_errors (fst (captureFrame throwing_env 5 sample_ready)) = [''Error capturing frame:'']
   \<and> status (fst (captureFrame throwing_env 5 sample_ready)) = Ready
   \<and> currentTime (fst (captureFrame throwing_env 5 sample_ready)) = 0
   \<and> duration (fst (captureFrame throwing_env 5 sample_ready)) = 30
   \<and> snd (run_handler throwing_env 7 (HandleSeeked 5) sample_ready) = Normal
   \<and> snd (run_task throwing_env (SeekFallback 7 5) sample_ready) = Normal"
proof -
  let ?v = "\<lparr>v_src = ''blob:a.mp4'', v_currentTime = 0, v_duration = 30,
             videoWidth = 640, videoHeight = 480, v_picture = [],
             v_listeners = [Listener 1 EvError HandleError]\<rparr>"
  let ?c = "\<lparr>c_width = 640, c_height = 480, c_bitmap = [], c_has2d = True\<rparr>"
  have h1: "video sample_ready = Some ?v" by (simp add: sample_ready_eq)
  have h2: "canvas sample_ready = Some ?c" by (simp add: sample_ready_eq)
  have h3: "c_has2d ?c" by simp
  have h4: "onFrameSelect throwing_env (toDataURL (?c\<lparr>c_width := videoWidth ?v,
              c_height := videoHeight ?v, c_bitmap := v_picture ?v\<rparr>)) 5 = Some (Error ''boom'')"
    by (simp add: throwing_env_def)
  have st: "status sample_ready = Ready" by (simp add: sample_ready_eq status_def)
  have ct: "currentTime sample_ready = 0" "duration sample_ready = 30"
    "console_errors sample_ready = []"
    by (simp_all add: sample_ready_eq)
  show ?thesis
    using captureFrame_catches_callback [OF h1 h2 h3 h4, of 7] st ct by simp
qed

text \<open>
  C8. When \<^verbatim>\<open>getContext('2d')\<close> yields no context, \<^verbatim>\<open>captureFrame\<close> reports it on the
  console and returns: nothing else of the world changes, so the status is what it was
  and \<^verbatim>\<open>onFrameSelect\<close> is not called; no exception leaves \<^verbatim>\<open>captureFrame\<close>; and a
  later capture, once the context is there, calls \<^verbatim>\<open>onFrameSelect\<close> with its time.
\<close>

theorem capture_failure_keeps_status:
  assumes "video w = Some v" and "canvas w = Some c" and "\<not> c_has2d c"
  shows "captureFrame e time w =
           (w\<lparr>console_errors := console_errors w @ [''Failed to get canvas context'']\<rparr>, Normal)
       \<and> status (fst (captureFrame e time w)) = status w
       \<and> invocations (fst (captureFrame e time w)) = invocations w
       \<and> snd (captureFrame e time' (set_context True (fst (captureFrame e time w)))) = Normal
       \<and> map snd (invocations (fst (captureFrame e time'
             (set_context True (fst (captureFrame e time w)))))) =
           map snd (invocations w) @ [time']"
proof -
  let ?w1 = "w\<lparr>console_errors := console_errors w @ [''Failed to get canvas context'']\<rparr>"
  have a: "captureFrame e time w = (?w1, Normal)"
    using assms by (simp add: captureFrame_def captureFrame_try_no_context)
  let ?w2 = "set_context True ?w1"
  have v2: "video ?w2 = Some v" and c2: "canvas ?w2 = Some (c\<lparr>c_has2d := True\<rparr>)"
    using assms by (simp_all add: set_context_def)
  have "map snd (invocations (fst (captureFrame e time' ?w2))) = map snd (invocations w) @ [time']"
  proof -
    have h: "c_has2d (c\<lparr>c_has2d := True\<rparr>)" by simp
    obtain r where tr: "captureFrame_try e time' ?w2 =
        (?w2\<lparr>canvas := Some (c\<lparr>c_has2d := True\<rparr>\<lparr>c_width := videoWidth v, c_height := videoHeight v,
                                   c_bitmap := v_picture v\<rparr>),
              invocations := invocations ?w2 @
                [(toDataURL (c\<lparr>c_has2d := True\<rparr>\<lparr>c_width := videoWidth v, c_height := videoHeight v,
                               c_bitmap := v_picture v\<rparr>), time')]\<rparr>, r)"
      using captureFrame_try_context [OF v2 c2 h, of e time'] by simp
    have i2: "invocations ?w2 = invocations w"
      using assms by (simp add: set_context_def)
    show ?thesis
      by (cases r) (simp_all add: captureFrame_def tr i2)
  qed
  then show ?thesis using a by (simp add: status_def)
qed

theorem capture_failure_keeps_status_witness:
  "captureFrame sample_env 5 (set_context False sample_ready) =
     ((set_context False sample_ready)\<lparr>console_errors := [''Failed to get canvas context'']\<rparr>, Normal)
   \<and> status (fst (captureFrame sample_env 5 (set_context False sample_ready))) = Ready
   \<and> map snd (invocations (fst (captureFrame sample_env 6
         (set_context True (fst (captureFrame sample_env 5 (set_context False sample_ready))))))) =
       [0, 6]"
proof -
  let ?v = "\<lparr>v_src = ''blob:a.mp4'', v_currentTime = 0, v_duration = 30,
             videoWidth = 640, videoHeight = 480, v_picture = [],
             v_listeners = [Listener 1 EvError HandleError]\<rparr>"
  let ?c = "\<lparr>c_width = 640, c_height = 480, c_bitmap = [], c_has2d = False\<rparr>"
  let ?w = "set_context False sample_ready"
  have h1: "video ?w = Some ?v" by (simp add: sample_ready_eq set_context_def)
  have h2: "canvas ?w = Some ?c" by (simp add: sample_ready_eq set_context_def)
  have h3: "\<not> c_has2d ?c" by simp
  have st: "status ?w = Ready" "console_errors ?w = []" "map snd (invocations ?w) = [0]"
    by (simp_all add: sample_ready_eq set_context_def status_def)
  note t = capture_failure_keeps_status [OF h1 h2 h3, of sample_env 5 6]
  from t have "captureFrame sample_env 5 ?w =
      (?w\<lparr>console_errors := console_errors ?w @ [''Failed to get canvas context'']\<rparr>, Normal)"
    by blast
  then have a: "captureFrame sample_env 5 ?w =
      (?w\<lparr>console_errors := [''Failed to get canvas context'']\<rparr>, Normal)"
    by (simp only: st append_Nil)
  from t have "status (fst (captureFrame sample_env 5 ?w)) = status ?w"
    by blast
  then have b: "status (fst (captureFrame sample_env 5 ?w)) = Ready"
    by (simp only: st)
  from t have "map snd (invocations (fst (captureFrame sample_env 6
         (set_context True (fst (captureFrame sample_env 5 ?w)))))) =
       map snd (invocations ?w) @ [6]"
    by blast
  then have c: "map snd (invocations (fst (captureFrame sample_env 6
         (set_context True (fst (captureFrame sample_env 5 ?w)))))) = [0, 6]"
    by (simp only: st append_Cons append_Nil)
  show ?thesis using a b c by blast
qed

text \<open>
  C9, as the code has it. Every capture that gets the context assigns the native width
  and height of the video to the canvas, the first capture and each later one alike; the
  video element is not touched, so a capture that follows with the same source finds
  the same numbers.
\<close>

theorem capture_sets_surface_size:
  assumes "video w = Some v" and "canvas w = Some c" and "c_has2d c"
  shows "map_option c_width (canvas (fst (captureFrame e time w))) = Some (videoWidth v)
       \<and> map_option c_height (canvas (fst (captureFrame e time w))) = Some (videoHeight v)
       \<and> video (fst (captureFrame e time w)) = Some v"
proof -
  obtain r where tr: "captureFrame_try e time w =
      (w\<lparr>canvas := Some (c\<lparr>c_width := videoWidth v, c_height := videoHeight v,
                               c_bitmap := v_picture v\<rparr>),
         invocations := invocations w @
           [(toDataURL (c\<lparr>c_width := videoWidth v, c_height := videoHeight v,
                          c_bitmap := v_picture v\<rparr>), time)]\<rparr>, r)"
    using captureFrame_try_context [OF assms, of e time] by simp
  show ?thesis
    using assms(1) by (cases r) (simp_all add: captureFrame_def tr)
qed

theorem capture_sets_surface_size_witness:
  "map_option c_width (canvas (fst (captureFrame sample_env 5 sample_ready))) = Some 640
   \<and> map_option c_height (canvas (fst (captureFrame sample_env 5 sample_ready))) = Some 480"
proof -
  let ?v = "\<lparr>v_src = ''blob:a.mp4'', v_currentTime = 0, v_duration = 30,
             videoWidth = 640, videoHeight = 480, v_picture = [],
             v_listeners = [Listener 1 EvError HandleError]\<rparr>"
  let ?c = "\<lparr>c_width = 640, c_height = 480, c_bitmap = [], c_has2d = True\<rparr>"
  have h1: "video sample_ready = Some ?v" by (simp add: sample_ready_eq)
  have h2: "canvas sample_ready = Some ?c" by (simp add: sample_ready_eq)
  have h3: "c_has2d ?c" by simp
  show ?thesis
    using capture_sets_surface_size [OF h1 h2 h3, of sample_env 5] by simp
qed

text \<open>
  C9 as stated fails: the canvas is created once, on mount, and serves every file. After
  the first capture of a 640 by 480 video it is 640 by 480; the parent then passes a
  1280 by 720 video, and the capture of that one, a later capture on the same canvas,
  makes it 1280 by 720.
\<close>

theorem later_capture_resizes_counterexample:
  "canvas sample_ready = Some \<lparr>c_width = 640, c_height = 480, c_bitmap = [], c_has2d = True\<rparr>
   \<and> length (invocations sample_ready) = 1
   \<and> canvas (run second_env [LoadedMetadata 10 1280 720, Elapse 100]
               (deps_changed second_env sample_ready)) =
       Some \<lparr>c_width = 1280, c_height = 720, c_bitmap = [], c_has2d = True\<rparr>
   \<and> length (invocations (run second_env [LoadedMetadata 10 1280 720, Elapse 100]
               (deps_changed second_env sample_ready))) = 2"
  by (simp add: sample_ready_eq event_defs sample_defs)

section \<open>The claims about handleSliderChange and the initial timestamp\<close>







text \<open>The state after mounting, when the file gets a URL.\<close>

lemma mount_eq:
  assumes "videoFile e = Some f" and "createObjectURL e f = Inr url"
  shows "mount e =
     \<lparr>duration = 0, currentTime = (case selectedTimestamp e of Some t \<Rightarrow> t | None \<Rightarrow> 0),
      loading = True, error = None,
      video = Some \<lparr>v_src = url, v_currentTime = 0, v_duration = 0,
                     videoWidth = 0, videoHeight = 0, v_picture = [],
                     v_listeners =
                       [Listener 0 EvLoadedMetadata (HandleLoadedMetadata (selectedTimestamp e)),
                        Listener 1 EvError HandleError]\<rparr>,
      canvas = Some \<lparr>c_width = 300, c_height = 150, c_bitmap = [], c_has2d = True\<rparr>,
      timers = [Timer 2 10000 (LoadTimeout True)], next_id = 3, clock = 0,
      effect_cleanup = Some (Cleanup 2 0 1 url),
      invocations = [], console_errors = [], revoked = []\<rparr>"
  using assms
  by (simp add: mount_def deps_changed_def init_effect_def run_cleanup_def create_elements_def
      first_render_def)

text \<open>
  C7 as stated fails: the initial timestamp is not clamped. With
  \<^verbatim>\<open>selectedTimestamp = 999\<close> and a 30 second video, the session is Ready with
  \<^verbatim>\<open>currentTime\<close> 999, and the first capture is delivered with timestamp 999.
\<close>

theorem initial_timestamp_not_clamped_counterexample:
  "status (run late_env [LoadedMetadata 30 640 480, Elapse 100] (mount late_env)) = Ready
   \<and> duration (run late_env [LoadedMetadata 30 640 480, Elapse 100] (mount late_env)) = 30
   \<and> currentTime (run late_env [LoadedMetadata 30 640 480, Elapse 100] (mount late_env)) = 999
   \<and> map snd (invocations
         (run late_env [LoadedMetadata 30 640 480, Elapse 100] (mount late_env))) = [999]"
  by (simp add: mount_defs event_defs sample_defs)

text \<open>
  C7, as the code has it. After mounting, when the metadata arrive less than 9.9
  seconds later, so that the first capture, 100 ms after them, comes before the load
  timeout is due: \<^verbatim>\<open>handleLoadedMetadata\<close> takes the duration from the video, sets
  \<^verbatim>\<open>currentTime\<close> and the position of the video to \<^verbatim>\<open>selectedTimestamp\<close> as given, or
  to 0 when it is absent, and 100 ms later its timer performs the first capture, one
  call of \<^verbatim>\<open>onFrameSelect\<close> with that timestamp, and the status is then Ready.
\<close>

theorem first_load:
  assumes "videoFile e = Some f" and "createObjectURL e f = Inr url" and "d0 < 9900"
  shows "status (run e [Elapse d0, LoadedMetadata d wd ht, Elapse 100] (mount e)) = Ready
       \<and> duration (run e [Elapse d0, LoadedMetadata d wd ht, Elapse 100] (mount e)) = d
       \<and> currentTime (run e [Elapse d0, LoadedMetadata d wd ht, Elapse 100] (mount e)) =
           (case selectedTimestamp e of Some t \<Rightarrow> t | None \<Rightarrow> 0)
       \<and> map_option v_currentTime
             (video (run e [Elapse d0, LoadedMetadata d wd ht, Elapse 100] (mount e))) =
           Some (case selectedTimestamp e of Some t \<Rightarrow> t | None \<Rightarrow> 0)
       \<and> map snd (invocations (run e [Elapse d0, LoadedMetadata d wd ht, Elapse 100] (mount e))) =
           [case selectedTimestamp e of Some t \<Rightarrow> t | None \<Rightarrow> 0]"
  using assms(3)
  apply (simp add: mount_eq [OF assms(1,2)] run_until.simps fire_loadedmetadata_def dispatch_def
      registered_def removeEventListener_def clearTimeout_def and_then_captureFrame
      status_def Let_def)
  apply (simp add: captureFrame_def captureFrame_try_def Let_def toDataURL_def split: option.splits)
  done

theorem first_load_witness:
  "status (run sample_env [Elapse 50, LoadedMetadata 30 640 480, Elapse 100] (mount sample_env)) = Ready
   \<and> currentTime (run sample_env [Elapse 50, LoadedMetadata 30 640 480, Elapse 100] (mount sample_env)) = 0
   \<and> map snd (invocations
         (run sample_env [Elapse 50, LoadedMetadata 30 640 480, Elapse 100] (mount sample_env))) = [0]
   \<and> currentTime (run late_env [Elapse 50, LoadedMetadata 30 640 480, Elapse 100] (mount late_env)) = 999"
proof -
  have a1: "videoFile sample_env = Some ''a.mp4''"
    and a2: "createObjectURL sample_env ''a.mp4'' = Inr ''blob:a.mp4''"
    and a3: "selectedTimestamp sample_env = None"
    by (simp_all add: sample_env_def)
  have b1: "videoFile late_env = Some ''a.mp4''"
    and b2: "createObjectURL late_env ''a.mp4'' = Inr ''blob:a.mp4''"
    and b3: "selectedTimestamp late_env = Some 999"
    by (simp_all add: late_env_def sample_env_def)
  have h: "(50::nat) < 9900" by simp
  show ?thesis
    using first_load [OF a1 a2 h, of 30 640 480] first_load [OF b1 b2 h, of 30 640 480]
    by (simp add: a3 b3)
qed

text \<open>
  When the metadata arrive later than that, though before the ten seconds are over, the
  load timeout fires before the first capture has set \<^verbatim>\<open>loading\<close> to false, and the
  status after the capture is the timeout's error.
\<close>

lemma late_metadata_meets_timeout:
  assumes "videoFile e = Some f" and "createObjectURL e f = Inr url"
    and "9900 \<le> d0" and "d0 < 10000"
  shows "status (run e [Elapse d0, LoadedMetadata d wd ht, Elapse 100] (mount e)) =
           Failed ''Video took too long to load. Please try again.''"
  using assms(3,4)
  apply (simp add: mount_eq [OF assms(1,2)] run_until.simps fire_loadedmetadata_def dispatch_def
      registered_def removeEventListener_def clearTimeout_def and_then_captureFrame
      status_def Let_def)
  apply (simp add: captureFrame_def captureFrame_try_def Let_def toDataURL_def split: option.splits)
  done

section \<open>The load timeout and the seek fallback\<close>

text \<open>
  The part of C5 that the code keeps, on the first mount. When the video element fires
  \<^verbatim>\<open>error\<close>, the status is the error message of \<^verbatim>\<open>handleError\<close>, and
  \<^verbatim>\<open>onFrameSelect\<close> has not been called by then; and, the render that ran the effect
  having had \<^verbatim>\<open>loading = true\<close>, ten seconds without an event give the timeout
  message, again with no call of \<^verbatim>\<open>onFrameSelect\<close> by then.
\<close>

lemma load_error_first_mount:
  assumes "videoFile e = Some f" and "createObjectURL e f = Inr url" and "d0 < 10000"
  shows "status (run e [Elapse d0, VideoError] (mount e)) =
           Failed ''Failed to load video. Please try a different file.''
       \<and> invocations (run e [Elapse d0, VideoError] (mount e)) = []"
  using assms(3)
  by (simp add: mount_eq [OF assms(1,2)] run_until.simps fire_error_def dispatch_def
      registered_def removeEventListener_def status_def)

lemma load_timeout_first_mount:
  assumes "videoFile e = Some f" and "createObjectURL e f = Inr url"
  shows "status (run e [Elapse 10000] (mount e)) =
           Failed ''Video took too long to load. Please try again.''
       \<and> invocations (run e [Elapse 10000] (mount e)) = []"
  by (simp add: mount_eq [OF assms(1,2)] run_until.simps clearTimeout_def status_def)

text \<open>
  C5 at a failing input. The first file has loaded, so \<^verbatim>\<open>loading\<close> is false in the
  render in which the parent passes a second file. The effect of that render calls
  \<^verbatim>\<open>setLoading(true)\<close>, but the closure of its timeout tests the constant
  \<^verbatim>\<open>loading\<close> of that render, which is false: with no metadata and no error event
  the timeout does nothing, no timer is left, and the status is Loading after ten
  seconds and stays so. For the same reason the timeout of the first mount, whose
  constant is true, sets the error ten seconds after mounting although the video loaded.
\<close>

theorem reload_timeout_stays_loading:
  "status (deps_changed second_env sample_ready) = Loading
   \<and> status (run second_env [Elapse 10000] (deps_changed second_env sample_ready)) = Loading
   \<and> timers (run second_env [Elapse 10000] (deps_changed second_env sample_ready)) = []
   \<and> status (run second_env [Elapse 10000, Elapse 600000]
         (deps_changed second_env sample_ready)) = Loading
   \<and> status (run sample_env [Elapse 9900] sample_ready) =
       Failed ''Video took too long to load. Please try again.''"
  by (simp add: sample_ready_eq event_defs sample_defs)

text \<open>
  C2 at a failing input. One slider change to 5; the seek completes and \<^verbatim>\<open>seeked\<close>
  fires, so \<^verbatim>\<open>handleSeeked\<close> captures; the timer set at line 137 was not cleared, so
  at 500 ms it captures again: two calls of \<^verbatim>\<open>onFrameSelect\<close> for the one request.
\<close>

theorem seeked_then_fallback_captures_twice:
  "invocations (run sample_env [SliderChange 5] sample_ready) =
     [(''data:image/jpeg;base64,'', 0)]
   \<and> invocations (run sample_env [SliderChange 5, Seeked ''p5''] sample_ready) =
     [(''data:image/jpeg;base64,'', 0), (''data:image/jpeg;base64,p5'', 5)]
   \<and> invocations (run sample_env [SliderChange 5, Seeked ''p5'', Elapse 500] sample_ready) =
     [(''data:image/jpeg;base64,'', 0), (''data:image/jpeg;base64,p5'', 5),
      (''data:image/jpeg;base64,p5'', 5)]"
  by (simp add: sample_ready_eq event_defs sample_defs)

section \<open>The claims about sequences of requests\<close>

lemma sample_ready_ok:
  "can_capture sample_ready" "timers_ok sample_ready" "pending_stamps (timers sample_ready) = []"
  by (simp_all add: sample_ready_eq can_capture_def timers_ok_def)

text \<open>
  C6. If \<^verbatim>\<open>seeked\<close> never fires for a request, the fallback timer of the request
  delivers its capture: when the clock shows 500 ms after the slider change,
  \<^verbatim>\<open>onFrameSelect\<close> has been called with the time of the request. This is so from
  every state in which a capture can reach the callback, whatever other timers are
  pending.
\<close>

theorem fallback_delivers_by_500ms:
  assumes "can_capture w" and "timers_ok w"
  shows "time \<in> set (delivered_since w (run e [SliderChange time, Elapse 500] w))
       \<and> clock (run e [SliderChange time, Elapse 500] w) = clock w + 500"
proof -
  let ?w1 = "handleSliderChange time w"
  let ?T = "clock ?w1 + 500"
  let ?w2 = "run_until e ?T ?w1"
  note eff = handleSliderChange_effect [OF assms(1), of time]
  have dist: "distinct (map t_id (timers ?w1))"
    using assms(2) by (auto simp: timers_ok_def eff)
  note f = run_until_fires [OF eff(5) dist, of e ?T]
  have r: "run e [SliderChange time, Elapse 500] w = ?w2" by simp
  have "scrubbing [SliderChange time, Elapse 500]" by simp
  then obtain ys where "invocations (run e [SliderChange time, Elapse 500] w) = invocations w @ ys"
    using run_scrub_prefix by blast
  then have "stamps ?w2 = stamps w @ delivered_since w ?w2"
    unfolding r by (rule stamps_split)
  then have "mset (stamps ?w2) = mset (stamps w) + mset (delivered_since w ?w2)"
    by (metis mset_append)
  moreover have "mset (stamps ?w2) =
      mset (stamps w) + (mset (pending_stamps (filter (\<lambda>x. t_due x \<le> clock w + 500) (timers w)))
        + {#time#})"
    using f by (simp add: eff)
  ultimately have "mset (delivered_since w ?w2) =
      mset (pending_stamps (filter (\<lambda>x. t_due x \<le> clock w + 500) (timers w))) + {#time#}"
    by simp
  then have "time \<in># mset (delivered_since w ?w2)" by simp
  then have "time \<in> set (delivered_since w ?w2)" by simp
  moreover have "clock ?w2 = clock w + 500" using f by (simp add: eff)
  ultimately show ?thesis unfolding r by simp
qed

theorem fallback_delivers_by_500ms_witness:
  "5 \<in> set (delivered_since sample_ready (run sample_env [SliderChange 5, Elapse 500] sample_ready))
   \<and> clock (run sample_env [SliderChange 5, Elapse 500] sample_ready) = 600"
proof -
  have c: "clock sample_ready = 100" by (simp add: sample_ready_eq)
  show ?thesis
    using fallback_delivers_by_500ms [OF sample_ready_ok(1) sample_ready_ok(2), of 5 sample_env]
    by (simp add: c)
qed

text \<open>
  C1 as stated fails: nothing in the source numbers the requests or compares a request
  with the latest one. Two slider changes, to 6 and then to 7, before either settles:
  both fallback timers capture, so \<^verbatim>\<open>onFrameSelect\<close> is called for 6, the superseded
  request, and for 7.
\<close>

theorem superseded_capture_delivered_counterexample:
  "delivered_since sample_ready
     (run sample_env [SliderChange 6, SliderChange 7, Elapse 500] sample_ready) = [6, 7]"
  by (simp add: delivered_since_def sample_ready_eq event_defs sample_defs)

text \<open>
  C1, as the code has it. In every run of slider changes and waiting, with no
  \<^verbatim>\<open>seeked\<close> event, started where no capture is pending: once 500 ms have passed
  after the last event, the timestamps delivered are, up to their order, exactly the
  timestamps requested. Every request has had its one capture from its fallback timer,
  the superseded requests too, and the number of calls of \<^verbatim>\<open>onFrameSelect\<close> is the
  number of requests.
\<close>

theorem every_request_captured:
  assumes "scrubbing evs" and "can_capture w" and "timers_ok w"
    and "pending_stamps (timers w) = []"
  shows "mset (delivered_since w (run e (evs @ [Elapse 500]) w)) = mset (requests evs)
       \<and> length (delivered_since w (run e (evs @ [Elapse 500]) w)) = length (requests evs)"
proof -
  have m: "mset (delivered_since w (run e (evs @ [Elapse 500]) w)) = mset (requests evs)"
    using assms by (rule scrub_then_wait)
  then have "length (delivered_since w (run e (evs @ [Elapse 500]) w)) = length (requests evs)"
    by (rule mset_eq_length)
  then show ?thesis using m by simp
qed

theorem every_request_captured_witness:
  "mset (delivered_since sample_ready
      (run sample_env [SliderChange 6, Elapse 200, SliderChange 7, Elapse 500] sample_ready)) =
     {#6, 7#}
   \<and> length (delivered_since sample_ready
      (run sample_env [SliderChange 6, Elapse 200, SliderChange 7, Elapse 500] sample_ready)) = 2"
proof -
  have s: "scrubbing [SliderChange 6, Elapse 200, SliderChange 7]" by simp
  show ?thesis
    using every_request_captured [OF s sample_ready_ok, of sample_env] by simp
qed

text \<open>
  C3 at a failing input. The user asks the control for the position 5 twice in
  succession. The second time the value of the control does not change, so
  \<^verbatim>\<open>handleSliderChange\<close> runs once and one timer is set: when \<^verbatim>\<open>seeked\<close> does not
  fire, one result with timestamp 5 is delivered. When \<^verbatim>\<open>seeked\<close> fires before the
  timer, \<^verbatim>\<open>handleSeeked\<close> captures and the timer, which nothing cleared, captures
  again: two results with timestamp 5.
\<close>

theorem repeated_request_duplicate_after_seeked:
  "slider_input 5 (slider_input 5 sample_ready) = slider_input 5 sample_ready
   \<and> delivered_since sample_ready
       (run sample_env [Elapse 500] (slider_input 5 (slider_input 5 sample_ready))) = [5]
   \<and> delivered_since sample_ready
       (run sample_env [Seeked ''p5'', Elapse 500] (slider_input 5 (slider_input 5 sample_ready))) =
       [5, 5]"
  by (simp add: slider_input_def slider_rendered_def range_value_def delivered_since_def sample_ready_eq
      event_defs sample_defs)

end
